theory Spec2Isabelle
  imports Complex_Main "HOL-Library.AList"
begin

section \<open>Characters and the regular expressions of the tokenizer\<close>

text \<open>
  Python strings are modelled as HOL strings whose characters are ASCII code points.
  On ASCII, the classes \<^verbatim>\<open>\s\<close> and \<^verbatim>\<open>\w\<close> of \<^verbatim>\<open>re\<close> on \<^verbatim>\<open>str\<close> patterns and the
  whitespace of \<^verbatim>\<open>str.split\<close> and \<^verbatim>\<open>str.strip\<close> are: whitespace, the code points
  9 to 13 and 28 to 32; word characters, the digits, the letters and the underscore.
  Beyond ASCII Python consults the Unicode tables, which are not modelled: statements
  about arbitrary texts are restricted to \<open>ascii_text\<close>.
\<close>

definition is_space :: "char \<Rightarrow> bool" where
  "is_space c = (let n = (of_char c :: nat) in (9 \<le> n \<and> n \<le> 13) \<or> (28 \<le> n \<and> n \<le> 32))"

definition is_word :: "char \<Rightarrow> bool" where
  "is_word c = (let n = (of_char c :: nat) in
     (48 \<le> n \<and> n \<le> 57) \<or> (65 \<le> n \<and> n \<le> 90) \<or> (97 \<le> n \<and> n \<le> 122) \<or> n = 95)"

definition lower_char :: "char \<Rightarrow> char" where
  "lower_char c = (let n = (of_char c :: nat) in
     if 65 \<le> n \<and> n \<le> 90 then char_of (n + 32) else c)"

definition lower :: "string \<Rightarrow> string" where
  "lower s = map lower_char s"

definition ascii_text :: "string \<Rightarrow> bool" where
  "ascii_text s = list_all (\<lambda>c. (of_char c :: nat) < 128) s"

text \<open>
  \<^verbatim>\<open>re.sub(pattern, repl, text)\<close> for a pattern that never matches the empty string: the
  text is scanned from the left; where the pattern matches, the match is replaced and
  the scan goes on behind it; elsewhere the character is kept. The pattern is given
  as a function that returns the length of its match at the start of a string.
\<close>

fun re_sub :: "(string \<Rightarrow> nat option) \<Rightarrow> string \<Rightarrow> string \<Rightarrow> string" where
  "re_sub m repl [] = []"
| "re_sub m repl (c # cs) =
     (case m (c # cs) of
        Some (Suc n) \<Rightarrow> repl @ re_sub m repl (drop n cs)
      | _ \<Rightarrow> c # re_sub m repl cs)"

text \<open>\<^verbatim>\<open>http\S+\<close>: the four letters, then the longest run of non-whitespace, at least one.\<close>

definition match_url :: "string \<Rightarrow> nat option" where
  "match_url s =
     (let run = takeWhile (\<lambda>c. \<not> is_space c) (drop 4 s)
      in if take 4 s = ''http'' \<and> run \<noteq> [] then Some (4 + length run) else None)"

text \<open>
  \<^verbatim>\<open><@\w+>\<close>: the greedy run of word characters must be followed by \<^verbatim>\<open>>\<close>; a shorter
  run is followed by a word character, so backtracking finds no other match.
\<close>

definition match_mention :: "string \<Rightarrow> nat option" where
  "match_mention s =
     (let run = takeWhile is_word (drop 2 s)
      in if take 2 s = ''<@'' \<and> run \<noteq> [] \<and> take 1 (drop (2 + length run) s) = ''>''
         then Some (3 + length run) else None)"

text \<open>\<^verbatim>\<open>[^\w\s]\<close>: one character that is neither a word character nor whitespace.\<close>

definition match_punct :: "string \<Rightarrow> nat option" where
  "match_punct s =
     (case s of [] \<Rightarrow> None
      | c # _ \<Rightarrow> if \<not> is_word c \<and> \<not> is_space c then Some 1 else None)"

text \<open>\<^verbatim>\<open>str.split()\<close> without arguments: the maximal runs of non-whitespace.\<close>

function split_ws :: "string \<Rightarrow> string list" where
  "split_ws s =
     (case dropWhile is_space s of
        [] \<Rightarrow> []
      | c # cs \<Rightarrow> takeWhile (\<lambda>x. \<not> is_space x) (c # cs)
                 # split_ws (dropWhile (\<lambda>x. \<not> is_space x) (c # cs)))"
  by pat_completeness auto
termination
proof (relation "measure length")
  show "wf (measure length)" by simp
next
  fix s :: string and c cs
  assume a: "dropWhile is_space s = c # cs"
  have "\<not> is_space c" using a by (metis hd_dropWhile list.sel(1) list.distinct(1))
  then have "dropWhile (\<lambda>x. \<not> is_space x) (c # cs) = dropWhile (\<lambda>x. \<not> is_space x) cs"
    by simp
  moreover have "length (dropWhile (\<lambda>x. \<not> is_space x) cs) \<le> length cs"
    by (rule length_dropWhile_le)
  moreover have "length (c # cs) \<le> length s"
    using a length_dropWhile_le [of is_space s] by simp
  ultimately show "(dropWhile (\<lambda>x. \<not> is_space x) (c # cs), s) \<in> measure length"
    by simp
qed

text \<open>\<^verbatim>\<open>str.strip()\<close> without arguments.\<close>

definition strip :: "string \<Rightarrow> string" where
  "strip t = rev (dropWhile is_space (rev (dropWhile is_space t)))"

text \<open>\<^verbatim>\<open>x or ""\<close> on an optional string: \<^verbatim>\<open>None\<close> and the empty string give the empty string.\<close>

definition or_empty :: "string option \<Rightarrow> string" where
  "or_empty x = (case x of None \<Rightarrow> [] | Some s \<Rightarrow> s)"

section \<open>The tokenizer\<close>

definition preprocess_text :: "string option \<Rightarrow> string list" where
  "preprocess_text text0 =
     (let text1 = re_sub match_url [] (or_empty text0);
          text2 = re_sub match_mention [] text1;
          text3 = re_sub match_punct '' '' text2;
          tokens = split_ws (lower (or_empty (Some text3)))
      in filter (\<lambda>t. strip t \<noteq> []) tokens)"

text \<open>The whitespace-join of a token sequence (\<^verbatim>\<open>" ".join(tokens)\<close>).\<close>

fun join_ws :: "string list \<Rightarrow> string" where
  "join_ws [] = []"
| "join_ws [t] = t"
| "join_ws (t # u # ts) = t @ '' '' @ join_ws (u # ts)"

text \<open>The pattern \<^verbatim>\<open>http\S+\<close> matches somewhere in a string.\<close>

fun has_url :: "string \<Rightarrow> bool" where
  "has_url [] = False"
| "has_url (c # cs) = (case match_url (c # cs) of Some _ \<Rightarrow> True | None \<Rightarrow> has_url cs)"

text \<open>
  A token: a non-empty string of lowercase word characters (digits, the letters
  \<open>a\<close> to \<open>z\<close> and the underscore), none of them whitespace.
\<close>

definition token_char :: "char \<Rightarrow> bool" where
  "token_char c \<longleftrightarrow> is_word c \<and> \<not> is_space c \<and> lower_char c = c"

definition is_token :: "string \<Rightarrow> bool" where
  "is_token t \<longleftrightarrow> t \<noteq> [] \<and> (\<forall>c \<in> set t. token_char c)"

section \<open>Documents\<close>

text \<open>
  A message is a JSON object; the keys the program reads are modelled as optional
  strings (\<open>None\<close>: the key is absent, so that \<^verbatim>\<open>msg.get(key)\<close> is \<^verbatim>\<open>None\<close>). Values
  that are not strings (\<^verbatim>\<open>null\<close>, numbers) are not modelled.
\<close>

record msg =
  msg_text :: "string option"
  msg_username :: "string option"
  msg_channel :: "string option"
  msg_thread_ts :: "string option"
  msg_ts :: "string option"
  msg_id :: "string option"
  msg_underscore_id :: "string option"

text \<open>Truth value of an optional string: \<^verbatim>\<open>None\<close> and \<^verbatim>\<open>""\<close> are false.\<close>

definition truthy :: "string option \<Rightarrow> bool" where
  "truthy x = (case x of None \<Rightarrow> False | Some s \<Rightarrow> s \<noteq> [])"

text \<open>\<^verbatim>\<open>x or y\<close>: the first operand when it is true, the second otherwise.\<close>

definition py_or :: "string option \<Rightarrow> string option \<Rightarrow> string option" where
  "py_or x y = (if truthy x then x else y)"

text \<open>
  The searchable text of a message, lines 30 to 32 of \<^verbatim>\<open>build_index\<close> and, word for
  word, lines 84 to 86 of \<^verbatim>\<open>add_documents\<close>.
\<close>

definition combined_text :: "msg \<Rightarrow> string" where
  "combined_text m =
     (let combined = or_empty (msg_text m) @ '' '' @ or_empty (msg_username m) @ '' ''
                     @ or_empty (msg_channel m)
      in if truthy (msg_thread_ts m) \<and> msg_thread_ts m \<noteq> msg_ts m
         then combined @ '' [threaded reply]'' else combined)"

text \<open>\<^verbatim>\<open>tokens = preprocess_text(combined)\<close>, line 33 and line 87.\<close>

definition doc_tokens :: "msg \<Rightarrow> string list" where
  "doc_tokens m = preprocess_text (Some (combined_text m))"

text \<open>\<^verbatim>\<open>msg.get("id") or msg.get("ts") or msg.get("_id")\<close>, line 89.\<close>

definition new_id :: "msg \<Rightarrow> string option" where
  "new_id m = py_or (py_or (msg_id m) (msg_ts m)) (msg_underscore_id m)"

section \<open>Errors\<close>

datatype py_error =
    FileNotFoundError string
  | ZeroDivisionError
  | IndexError
  | JSONDecodeError
  | UnpicklingError
  | IsADirectoryError

section \<open>The BM25Okapi class of the rank_bm25 package\<close>

text \<open>
  \<^verbatim>\<open>bm25_index.py\<close> imports \<^verbatim>\<open>BM25Okapi\<close> from the package \<^verbatim>\<open>rank_bm25\<close> and uses its
  constructor and its method \<^verbatim>\<open>get_scores\<close>. The definitions of this section follow
  the package: \<^verbatim>\<open>BM25.__init__\<close>, \<^verbatim>\<open>BM25._initialize\<close>, \<^verbatim>\<open>BM25Okapi._calc_idf\<close> and
  \<^verbatim>\<open>BM25Okapi.get_scores\<close>. Floating-point numbers are modelled as reals (rounding is
  not modelled; the claims below depend on signs and on the order of scores only), the
  dictionaries as association lists in insertion order.
\<close>

type_synonym 'v dict = "(string \<times> 'v) list"

record bm25 =
  bm_corpus_size :: nat
  bm_avgdl :: real
  bm_doc_freqs :: "nat dict list"
  bm_idf :: "real dict"
  bm_doc_len :: "nat list"
  bm_k1 :: real
  bm_b :: real
  bm_epsilon :: real
  bm_average_idf :: real

text \<open>
  \<^verbatim>\<open>if word not in frequencies: frequencies[word] = 0\<close>, then
  \<^verbatim>\<open>frequencies[word] += 1\<close>, for every word of a document.
\<close>

definition count_word :: "string \<Rightarrow> nat dict \<Rightarrow> nat dict" where
  "count_word word frequencies =
     AList.update word ((case map_of frequencies word of None \<Rightarrow> 0 | Some n \<Rightarrow> n) + 1)
       frequencies"

definition frequencies_of :: "string list \<Rightarrow> nat dict" where
  "frequencies_of document = fold count_word document []"

text \<open>\<^verbatim>\<open>try: nd[word] += 1 except KeyError: nd[word] = 1\<close>.\<close>

definition count_doc :: "string \<times> nat \<Rightarrow> nat dict \<Rightarrow> nat dict" where
  "count_doc item nd =
     AList.update (fst item) (case map_of nd (fst item) of None \<Rightarrow> 1 | Some n \<Rightarrow> n + 1) nd"

text \<open>
  The loop of \<^verbatim>\<open>_initialize\<close> over the corpus; the state is
  \<open>(nd, num_doc, doc_len, doc_freqs, corpus_size)\<close>.
\<close>

fun initialize_loop ::
  "string list list \<Rightarrow> nat dict \<times> nat \<times> nat list \<times> nat dict list \<times> nat
    \<Rightarrow> nat dict \<times> nat \<times> nat list \<times> nat dict list \<times> nat" where
  "initialize_loop [] st = st"
| "initialize_loop (document # rest) (nd, num_doc, doc_len, doc_freqs, corpus_size) =
     (let frequencies = frequencies_of document
      in initialize_loop rest
           (fold count_doc frequencies nd, num_doc + length document,
            doc_len @ [length document], doc_freqs @ [frequencies], corpus_size + 1))"

text \<open>
  \<^verbatim>\<open>math.log(self.corpus_size - freq + 0.5) - math.log(freq + 0.5)\<close>; \<open>freq\<close> counts
  documents of the corpus, so the first argument is at least one half.
\<close>

definition raw_idf :: "nat \<Rightarrow> nat \<Rightarrow> real" where
  "raw_idf corpus_size freq = ln (real corpus_size - real freq + 0.5) - ln (real freq + 0.5)"

text \<open>
  The first loop of \<^verbatim>\<open>_calc_idf\<close> over \<^verbatim>\<open>nd.items()\<close>; the state is
  \<open>(idf, idf_sum, negative_idfs)\<close>.
\<close>

fun calc_idf_loop ::
  "nat \<Rightarrow> nat dict \<Rightarrow> real dict \<times> real \<times> string list \<Rightarrow> real dict \<times> real \<times> string list" where
  "calc_idf_loop corpus_size [] st = st"
| "calc_idf_loop corpus_size ((word, freq) # rest) (idf, idf_sum, negative_idfs) =
     (let v = raw_idf corpus_size freq
      in calc_idf_loop corpus_size rest
           (AList.update word v idf, idf_sum + v,
            if v < 0 then negative_idfs @ [word] else negative_idfs))"

text \<open>
  The constructor \<^verbatim>\<open>BM25Okapi(corpus, k1=k1, b=b)\<close>, with the default \<open>epsilon = 0.25\<close>.
  The two divisions are Python divisions: \<^verbatim>\<open>num_doc / self.corpus_size\<close> raises on a
  corpus without documents, \<^verbatim>\<open>idf_sum / len(self.idf)\<close> on a corpus without words.
\<close>

definition BM25Okapi :: "string list list \<Rightarrow> real \<Rightarrow> real \<Rightarrow> py_error + bm25" where
  "BM25Okapi corpus k1 b =
     (case initialize_loop corpus ([], 0, [], [], 0) of
        (nd, num_doc, doc_len, doc_freqs, corpus_size) \<Rightarrow>
          if corpus_size = 0 then Inl ZeroDivisionError
          else
            (case calc_idf_loop corpus_size nd ([], 0, []) of
               (idf, idf_sum, negative_idfs) \<Rightarrow>
                 if length idf = 0 then Inl ZeroDivisionError
                 else
                   (let average_idf = idf_sum / real (length idf);
                        eps = 0.25 * average_idf
                    in Inr \<lparr> bm_corpus_size = corpus_size,
                             bm_avgdl = real num_doc / real corpus_size,
                             bm_doc_freqs = doc_freqs,
                             bm_idf = fold (\<lambda>word d. AList.update word eps d) negative_idfs idf,
                             bm_doc_len = doc_len,
                             bm_k1 = k1, bm_b = b, bm_epsilon = 0.25,
                             bm_average_idf = average_idf \<rparr>)))"

text \<open>
  One round of the loop of \<^verbatim>\<open>get_scores\<close>:
  \<^verbatim>\<open>score += (self.idf.get(q) or 0) * (q_freq * (self.k1 + 1) /
     (q_freq + self.k1 * (1 - self.b + self.b * doc_len / self.avgdl)))\<close>
  on arrays of length \<open>corpus_size\<close>. Where the divisor is \<open>0\<close> numpy gives \<^verbatim>\<open>nan\<close> or
  \<^verbatim>\<open>inf\<close> and the model the real quotient \<open>0\<close>: the model follows the code where no
  divisor is \<open>0\<close>, as with \<open>0 < k1\<close> and \<open>0 \<le> b < 1\<close> (with \<open>k1 = 0\<close>, or with \<open>b = 1\<close> and
  a document without tokens, it does not). The scores computed below are for
  \<open>k1 = 1.2\<close> and \<open>b = 0.75\<close>.
\<close>

definition term_scores :: "bm25 \<Rightarrow> string \<Rightarrow> real list" where
  "term_scores bm q =
     (let q_freq = map (\<lambda>doc. case map_of doc q of None \<Rightarrow> 0 | Some n \<Rightarrow> n) (bm_doc_freqs bm);
          w = (case map_of (bm_idf bm) q of None \<Rightarrow> 0 | Some v \<Rightarrow> if v \<noteq> 0 then v else 0)
      in map2 (\<lambda>f dl. w * (real f * (bm_k1 bm + 1)
                / (real f + bm_k1 bm * (1 - bm_b bm + bm_b bm * real dl / bm_avgdl bm))))
           q_freq (bm_doc_len bm))"

definition get_scores :: "bm25 \<Rightarrow> string list \<Rightarrow> real list" where
  "get_scores bm query =
     fold (\<lambda>q score. map2 (+) score (term_scores bm q)) query
       (replicate (bm_corpus_size bm) 0)"

section \<open>numpy: argsort and slices\<close>

text \<open>
  \<^verbatim>\<open>np.argsort(scores)\<close>: the indices of \<open>scores\<close> in ascending order of score. The
  default sorting kind of numpy is not stable: the order it gives to the indices of
  equal scores depends on the length of the array, on the version of numpy and on the
  processor. The model puts the indices of equal scores in ascending order, which is
  what numpy returns on the three scores of \<open>three_index\<close> below. What is proved of every
  search (\<open>search_sorted\<close>, \<open>search_positive_top_k\<close>, \<open>search_empty_query\<close>) uses only
  that \<open>argsort\<close> returns every index once, in ascending order of score.
\<close>

definition argsort :: "real list \<Rightarrow> nat list" where
  "argsort scores = sort_key (\<lambda>i. scores ! i) [0..<length scores]"

text \<open>
  The slice \<^verbatim>\<open>xs[start:]\<close>: a negative \<open>start\<close> counts from the end and is clipped at
  the first element.
\<close>

definition slice_from :: "int \<Rightarrow> 'a list \<Rightarrow> 'a list" where
  "slice_from start xs =
     (if start < 0 then drop (nat (int (length xs) + start)) xs else drop (nat start) xs)"

section \<open>The index store\<close>

text \<open>
  The dictionary that \<^verbatim>\<open>pickle.dump\<close> writes has the three keys \<^verbatim>\<open>bm25\<close>, \<^verbatim>\<open>doc_ids\<close>
  and \<^verbatim>\<open>tokenized_corpus\<close>. A document id is what \<^verbatim>\<open>msg.get\<close> returned, \<open>None\<close> included.
  A file is a JSON corpus (\<open>None\<close>: an object without the key \<^verbatim>\<open>docs\<close>) or a pickled index;
  the file system maps the paths that exist to their files. Directories are implicit:
  \<^verbatim>\<open>os.makedirs\<close> changes nothing in the model and fails on the empty path only, and
  opening a file for writing fails on the empty path and on a path that ends in a
  slash. Other failures of the operating system (permissions, a file in the place of a
  directory, a full disk) are not modelled.
\<close>

record persisted =
  p_bm25 :: bm25
  p_doc_ids :: "string option list"
  p_tokenized_corpus :: "string list list"

datatype file_content = JsonFile "msg list option" | PickleFile persisted

type_synonym fs = "string \<rightharpoonup> file_content"

text \<open>\<^verbatim>\<open>os.path.dirname\<close> (posixpath).\<close>

definition dirname :: "string \<Rightarrow> string" where
  "dirname p =
     (let head = rev (dropWhile (\<lambda>c. c \<noteq> CHR ''/'') (rev p))
      in if head \<noteq> [] \<and> head \<noteq> replicate (length head) (CHR ''/'')
         then rev (dropWhile (\<lambda>c. c = CHR ''/'') (rev head)) else head)"

text \<open>\<^verbatim>\<open>os.makedirs(name, exist_ok=True)\<close>.\<close>

definition makedirs :: "string \<Rightarrow> py_error + unit" where
  "makedirs name =
     (if name = [] then Inl (FileNotFoundError (''[Errno 2] No such file or directory: '' @ [CHR 0x27, CHR 0x27]))
      else Inr ())"

text \<open>
  \<^verbatim>\<open>open(index_path, "wb")\<close>: the empty path names no file, a path that ends in a slash
  names a directory.
\<close>

definition open_wb :: "string \<Rightarrow> py_error + unit" where
  "open_wb path =
     (if path = []
      then Inl (FileNotFoundError (''[Errno 2] No such file or directory: '' @ [CHR 0x27, CHR 0x27]))
      else if last path = CHR ''/'' then Inl IsADirectoryError
      else Inr ())"

text \<open>\<^verbatim>\<open>with open(index_path, "rb") as f: data = pickle.load(f)\<close> on a path that exists.\<close>

definition load_pickle :: "file_content \<Rightarrow> py_error + persisted" where
  "load_pickle f = (case f of JsonFile _ \<Rightarrow> Inl UnpicklingError | PickleFile data \<Rightarrow> Inr data)"

text \<open>\<^verbatim>\<open>with open(corpus_json_path, "r") as f: data = json.load(f)\<close> on a path that exists.\<close>

definition load_json :: "file_content \<Rightarrow> py_error + msg list option" where
  "load_json f = (case f of JsonFile data \<Rightarrow> Inr data | PickleFile _ \<Rightarrow> Inl JSONDecodeError)"

text \<open>\<^verbatim>\<open>docs = data.get("docs", [])\<close>.\<close>

definition get_docs :: "msg list option \<Rightarrow> msg list" where
  "get_docs data = (case data of None \<Rightarrow> [] | Some ds \<Rightarrow> ds)"

text \<open>
  The two parallel sequences of the store at a path, as \<open>add_documents\<close> reads them:
  both empty where there is no index.
\<close>

definition stored_doc_ids :: "fs \<Rightarrow> string \<Rightarrow> string option list" where
  "stored_doc_ids files path =
     (case files path of Some (PickleFile data) \<Rightarrow> p_doc_ids data | _ \<Rightarrow> [])"

definition stored_corpus :: "fs \<Rightarrow> string \<Rightarrow> string list list" where
  "stored_corpus files path =
     (case files path of Some (PickleFile data) \<Rightarrow> p_tokenized_corpus data | _ \<Rightarrow> [])"

section \<open>build_index\<close>

text \<open>The loop of lines 29 to 35; the state is \<open>(tokenized_docs, doc_ids)\<close>.\<close>

fun build_loop ::
  "msg list \<Rightarrow> string list list \<times> string option list \<Rightarrow> string list list \<times> string option list"
  where
  "build_loop [] st = st"
| "build_loop (m # rest) (tokenized_docs, doc_ids) =
     (let tokens = doc_tokens m
      in build_loop rest (tokenized_docs @ [tokens], doc_ids @ [msg_id m]))"

definition build_index ::
  "fs \<Rightarrow> string \<Rightarrow> string \<Rightarrow> real \<Rightarrow> real \<Rightarrow> py_error + (fs \<times> nat \<times> nat)" where
  "build_index files corpus_json_path index_path k1 b =
     (case files corpus_json_path of
        None \<Rightarrow> Inl (FileNotFoundError (''Corpus not found: '' @ corpus_json_path))
      | Some f \<Rightarrow>
         (case load_json f of
            Inl e \<Rightarrow> Inl e
          | Inr data \<Rightarrow>
             (let docs = get_docs data
              in case build_loop docs ([], []) of
                   (tokenized_docs, doc_ids) \<Rightarrow>
                     (case BM25Okapi tokenized_docs k1 b of
                        Inl e \<Rightarrow> Inl e
                      | Inr bm25 \<Rightarrow>
                         (case makedirs (dirname index_path) of
                            Inl e \<Rightarrow> Inl e
                          | Inr _ \<Rightarrow>
                             (case open_wb index_path of
                                Inl e \<Rightarrow> Inl e
                              | Inr _ \<Rightarrow>
                                 Inr (files(index_path \<mapsto> PickleFile
                                        \<lparr> p_bm25 = bm25, p_doc_ids = doc_ids,
                                          p_tokenized_corpus = tokenized_docs \<rparr>),
                                      length docs, length doc_ids)))))))"

section \<open>search\<close>

text \<open>
  The loop of lines 60 to 62. \<open>scores[idx]\<close> is in range, the index coming from
  \<open>argsort\<close>; \<open>doc_ids[idx]\<close> raises beyond the end of \<open>doc_ids\<close>.
\<close>

fun collect ::
  "string option list \<Rightarrow> real list \<Rightarrow> nat list \<Rightarrow> (string option \<times> real) list
    \<Rightarrow> py_error + (string option \<times> real) list" where
  "collect doc_ids scores [] out = Inr out"
| "collect doc_ids scores (idx # rest) out =
     (if scores ! idx > 0
      then (if idx < length doc_ids
            then collect doc_ids scores rest (out @ [(doc_ids ! idx, scores ! idx)])
            else Inl IndexError)
      else collect doc_ids scores rest out)"

definition search ::
  "fs \<Rightarrow> string \<Rightarrow> string \<Rightarrow> int \<Rightarrow> py_error + (string option \<times> real) list" where
  "search files index_path query top_k =
     (case files index_path of
        None \<Rightarrow> Inr []
      | Some f \<Rightarrow>
         (case load_pickle f of
            Inl e \<Rightarrow> Inl e
          | Inr data \<Rightarrow>
             (let bm25 = p_bm25 data;
                  doc_ids = p_doc_ids data;
                  q_tokens = preprocess_text (Some query);
                  scores = get_scores bm25 q_tokens;
                  top_idx = rev (slice_from (- top_k) (argsort scores))
              in collect doc_ids scores top_idx [])))"

section \<open>add_documents\<close>

text \<open>The loop of lines 83 to 89; the state is \<open>(new_tokens, new_ids)\<close>.\<close>

fun add_loop ::
  "msg list \<Rightarrow> string list list \<times> string option list \<Rightarrow> string list list \<times> string option list"
  where
  "add_loop [] st = st"
| "add_loop (m # rest) (new_tokens, new_ids) =
     (let tokens = doc_tokens m
      in add_loop rest (new_tokens @ [tokens], new_ids @ [new_id m]))"

definition warning :: string where
  "warning = ''Warning: No existing index found, creating new''"

text \<open>
  Lines 91 to 103, from the loaded (or empty) sequences on. The result is the new file
  system and the number of documents added.
\<close>

definition extend_and_save ::
  "fs \<Rightarrow> string \<Rightarrow> string list list \<Rightarrow> string option list \<Rightarrow> msg list \<Rightarrow> real \<Rightarrow> real
    \<Rightarrow> py_error + (fs \<times> nat)" where
  "extend_and_save files index_path tokenized_corpus0 doc_ids0 docs k1 b =
     (case add_loop docs ([], []) of
        (new_tokens, new_ids) \<Rightarrow>
          (let tokenized_corpus = tokenized_corpus0 @ new_tokens;
               doc_ids = doc_ids0 @ new_ids
           in case BM25Okapi tokenized_corpus k1 b of
                Inl e \<Rightarrow> Inl e
              | Inr bm25 \<Rightarrow>
                 (let dir_name = dirname index_path
                  in case (if dir_name \<noteq> [] then makedirs dir_name else Inr ()) of
                       Inl e \<Rightarrow> Inl e
                     | Inr _ \<Rightarrow>
                        (case open_wb index_path of
                           Inl e \<Rightarrow> Inl e
                         | Inr _ \<Rightarrow>
                            Inr (files(index_path \<mapsto> PickleFile
                                   \<lparr> p_bm25 = bm25, p_doc_ids = doc_ids,
                                     p_tokenized_corpus = tokenized_corpus \<rparr>),
                                 length new_ids)))))"

text \<open>
  \<open>add_documents\<close> returns what it printed on the standard error stream together with
  its outcome; \<open>rebuild_threshold\<close> is its fifth parameter.
\<close>

definition add_documents ::
  "fs \<Rightarrow> string \<Rightarrow> msg list \<Rightarrow> real \<Rightarrow> real \<Rightarrow> int \<Rightarrow> string list \<times> (py_error + (fs \<times> nat))"
  where
  "add_documents files index_path docs k1 b rebuild_threshold =
     (case files index_path of
        Some f \<Rightarrow>
          (case load_pickle f of
             Inl e \<Rightarrow> ([], Inl e)
           | Inr data \<Rightarrow>
              ([], extend_and_save files index_path (p_tokenized_corpus data) (p_doc_ids data)
                     docs k1 b))
      | None \<Rightarrow> ([warning], extend_and_save files index_path [] [] docs k1 b))"

section \<open>Example stores\<close>

text \<open>The message \<^verbatim>\<open>{"id": i, "text": t}\<close>.\<close>

definition doc :: "string \<Rightarrow> string \<Rightarrow> msg" where
  "doc i t = \<lparr> msg_text = Some t, msg_username = None, msg_channel = None,
               msg_thread_ts = None, msg_ts = None, msg_id = Some i,
               msg_underscore_id = None \<rparr>"

definition scenario_docs :: "msg list" where
  "scenario_docs = [doc ''1'' ''the cat sat'', doc ''2'' ''the dog ran'']"

definition scenario_files :: fs where
  "scenario_files = [''corpus.json'' \<mapsto> JsonFile (Some scenario_docs)]"

definition three_docs :: "msg list" where
  "three_docs = [doc ''1'' ''cat'', doc ''2'' ''dog'', doc ''3'' ''bird'']"

definition three_files :: fs where
  "three_files = [''corpus.json'' \<mapsto> JsonFile (Some three_docs)]"

text \<open>
  The stores that \<open>build_index\<close> leaves for the two corpora at \<^verbatim>\<open>idx/bm25.pkl\<close> with
  \<open>k1 = 1.2\<close> and \<open>b = 0.75\<close> (lemmas \<open>build_scenario\<close> and \<open>build_three\<close>).
\<close>

definition scenario_index :: persisted where
  "scenario_index =
     \<lparr> p_bm25 =
         \<lparr> bm_corpus_size = 2, bm_avgdl = 3,
           bm_doc_freqs = [[(''the'', 1), (''cat'', 1), (''sat'', 1)],
                           [(''the'', 1), (''dog'', 1), (''ran'', 1)]],
           bm_idf = [(''the'', 0.25 * ((ln 0.5 - ln 2.5) / 5)), (''cat'', 0), (''sat'', 0),
                     (''dog'', 0), (''ran'', 0)],
           bm_doc_len = [3, 3], bm_k1 = 1.2, bm_b = 0.75, bm_epsilon = 0.25,
           bm_average_idf = (ln 0.5 - ln 2.5) / 5 \<rparr>,
       p_doc_ids = [Some ''1'', Some ''2''],
       p_tokenized_corpus = [[''the'', ''cat'', ''sat''], [''the'', ''dog'', ''ran'']] \<rparr>"

definition scenario_store :: fs where
  "scenario_store = scenario_files(''idx/bm25.pkl'' \<mapsto> PickleFile scenario_index)"

definition three_index :: persisted where
  "three_index =
     \<lparr> p_bm25 =
         \<lparr> bm_corpus_size = 3, bm_avgdl = 1,
           bm_doc_freqs = [[(''cat'', 1)], [(''dog'', 1)], [(''bird'', 1)]],
           bm_idf = [(''cat'', ln 2.5 - ln 1.5), (''dog'', ln 2.5 - ln 1.5),
                     (''bird'', ln 2.5 - ln 1.5)],
           bm_doc_len = [1, 1, 1], bm_k1 = 1.2, bm_b = 0.75, bm_epsilon = 0.25,
           bm_average_idf = ln 2.5 - ln 1.5 \<rparr>,
       p_doc_ids = [Some ''1'', Some ''2'', Some ''3''],
       p_tokenized_corpus = [[''cat''], [''dog''], [''bird'']] \<rparr>"

definition three_store :: fs where
  "three_store = three_files(''idx/bm25.pkl'' \<mapsto> PickleFile three_index)"

section \<open>Basic facts\<close>

declare split_ws.simps [simp del]

lemma build_loop_maps:
  "build_loop docs (ts, ids) = (ts @ map doc_tokens docs, ids @ map msg_id docs)"
  by (induction docs arbitrary: ts ids) (simp_all add: Let_def)

lemma add_loop_maps:
  "add_loop docs (ts, ids) = (ts @ map doc_tokens docs, ids @ map new_id docs)"
  by (induction docs arbitrary: ts ids) (simp_all add: Let_def)

lemma BM25Okapi_params:
  assumes "BM25Okapi corpus k1 b = Inr bm"
  shows "bm_k1 bm = k1 \<and> bm_b bm = b"
  using assms
  by (auto simp: BM25Okapi_def Let_def split: prod.splits if_splits)

lemma BM25Okapi_error:
  assumes "BM25Okapi corpus k1 b = Inl e"
  shows "e = ZeroDivisionError"
  using assms
  by (auto simp: BM25Okapi_def Let_def split: prod.splits if_splits)

section \<open>Facts about the tokenizer\<close>

lemma lower_char_word: "is_word c \<Longrightarrow> token_char (lower_char c)"
  by (auto simp: token_char_def is_word_def is_space_def lower_char_def Let_def)

lemma lower_char_space: "is_space c \<Longrightarrow> lower_char c = c"
  by (auto simp: is_space_def lower_char_def Let_def)

lemma token_char_not_lt: "token_char c \<Longrightarrow> c \<noteq> CHR ''<''"
  by (auto simp: token_char_def is_word_def)

lemma space_is_space: "is_space (CHR '' '')"
  by (simp add: is_space_def)

lemma re_sub_url_id: "\<not> has_url s \<Longrightarrow> re_sub match_url r s = s"
  by (induction s) (auto split: option.splits)

lemma re_sub_mention_id: "CHR ''<'' \<notin> set s \<Longrightarrow> re_sub match_mention r s = s"
  by (induction s) (auto simp: match_mention_def Let_def split: option.splits)

lemma re_sub_punct_id: "\<forall>c \<in> set s. is_word c \<or> is_space c \<Longrightarrow> re_sub match_punct r s = s"
  by (induction s) (auto simp: match_punct_def split: option.splits)

lemma re_sub_punct_chars:
  "c \<in> set (re_sub match_punct '' '' s) \<Longrightarrow> is_word c \<or> is_space c"
  by (induction s) (auto simp: match_punct_def space_is_space split: if_splits)

lemma split_ws_tokens:
  "t \<in> set (split_ws s) \<Longrightarrow> t \<noteq> [] \<and> (\<forall>c \<in> set t. \<not> is_space c \<and> c \<in> set s)"
proof (induction s rule: split_ws.induct)
  case (1 s)
  show ?case
  proof (cases "dropWhile is_space s")
    case Nil
    with "1.prems" show ?thesis by (simp add: split_ws.simps [of s])
  next
    case (Cons c cs)
    have c: "\<not> is_space c" using Cons by (metis hd_dropWhile list.sel(1) list.distinct(1))
    from "1.prems" Cons have
      "t = takeWhile (\<lambda>x. \<not> is_space x) (c # cs)
       \<or> t \<in> set (split_ws (dropWhile (\<lambda>x. \<not> is_space x) (c # cs)))"
      by (simp add: split_ws.simps [of s])
    then show ?thesis
    proof
      assume t: "t = takeWhile (\<lambda>x. \<not> is_space x) (c # cs)"
      have "set (c # cs) \<subseteq> set s" using Cons by (metis set_dropWhileD subsetI)
      then show ?thesis using t c by (auto dest: set_takeWhileD)
    next
      assume "t \<in> set (split_ws (dropWhile (\<lambda>x. \<not> is_space x) (c # cs)))"
      from "1.IH" [OF Cons this] have
        "t \<noteq> []" "\<forall>x \<in> set t. \<not> is_space x \<and> x \<in> set (dropWhile (\<lambda>x. \<not> is_space x) (c # cs))"
        by simp_all
      moreover have "set (dropWhile (\<lambda>x. \<not> is_space x) (c # cs)) \<subseteq> set s"
        using Cons by (metis set_dropWhileD subsetI)
      ultimately show ?thesis by blast
    qed
  qed
qed

lemma is_token_no_space: "is_token t \<Longrightarrow> c \<in> set t \<Longrightarrow> \<not> is_space c"
  by (auto simp: is_token_def token_char_def)

lemma split_ws_space: "split_ws (CHR '' '' # s) = split_ws s"
  by (simp add: split_ws.simps [of "CHR '' '' # s"] split_ws.simps [of s] space_is_space)

lemma split_ws_token_append:
  assumes "is_token t" and "r = [] \<or> is_space (hd r)"
  shows "split_ws (t @ r) = t # split_ws r"
proof -
  from assms(1) obtain c cs where t: "t = c # cs" by (cases t) (auto simp: is_token_def)
  have ns: "\<forall>x \<in> set t. \<not> is_space x" using assms(1) by (auto dest: is_token_no_space)
  then have d: "dropWhile is_space (t @ r) = t @ r" using t by simp
  have tw: "takeWhile (\<lambda>x. \<not> is_space x) (t @ r) = t"
    using ns assms(2) by (cases r) auto
  have dw: "dropWhile (\<lambda>x. \<not> is_space x) (t @ r) = r"
    using ns assms(2) by (cases r) auto
  show ?thesis
    using d tw dw t by (subst split_ws.simps) (simp del: dropWhile.simps takeWhile.simps)
qed

lemma split_ws_Nil: "split_ws [] = []"
  by (simp add: split_ws.simps)

lemma split_ws_join: "\<forall>t \<in> set ts. is_token t \<Longrightarrow> split_ws (join_ws ts) = ts"
proof (induction ts rule: join_ws.induct)
  case 1
  then show ?case by (simp add: split_ws_Nil)
next
  case (2 t)
  then show ?case using split_ws_token_append [of t "[]"] by (simp add: split_ws_Nil)
next
  case (3 t u ts)
  then have "split_ws (t @ CHR '' '' # join_ws (u # ts)) = t # split_ws (CHR '' '' # join_ws (u # ts))"
    using split_ws_token_append [of t "CHR '' '' # join_ws (u # ts)"] by (simp add: space_is_space)
  with 3 show ?case by (simp add: split_ws_space)
qed

lemma match_url_token_append:
  assumes "is_token t" and "r = [] \<or> is_space (hd r)"
  shows "match_url (t @ r) = match_url t"
proof -
  have ns: "\<forall>x \<in> set t. \<not> is_space x" using assms(1) by (auto dest: is_token_no_space)
  have r: "takeWhile (\<lambda>c. \<not> is_space c) r = []"
    using assms(2) by (cases r) auto
  show ?thesis
  proof (cases "4 \<le> length t")
    case True
    have "set (drop 4 t) \<subseteq> set t" by (rule set_drop_subset)
    with ns have d: "\<forall>x \<in> set (drop 4 t). \<not> is_space x" by blast
    have a: "drop 4 (t @ r) = drop 4 t @ r" and b: "take 4 (t @ r) = take 4 t"
      using True by simp_all
    have "takeWhile (\<lambda>c. \<not> is_space c) (drop 4 t @ r)
        = drop 4 t @ takeWhile (\<lambda>c. \<not> is_space c) r"
      by (rule takeWhile_append2) (use d in blast)
    moreover have "takeWhile (\<lambda>c. \<not> is_space c) (drop 4 t) = drop 4 t"
      using d by (simp only: takeWhile_eq_all_conv)
    ultimately have c: "takeWhile (\<lambda>c. \<not> is_space c) (drop 4 (t @ r))
        = takeWhile (\<lambda>c. \<not> is_space c) (drop 4 t)"
      by (simp only: a r append_Nil2)
    show ?thesis by (simp only: match_url_def b c)
  next
    case False
    have 1: "match_url t = None"
    proof -
      have "length (take 4 t) \<noteq> length ''http''" using False by simp
      then have "take 4 t \<noteq> ''http''" by metis
      then show ?thesis unfolding match_url_def Let_def by (simp only: simp_thms if_False)
    qed
    have "take 4 (t @ r) \<noteq> ''http''"
    proof (cases r)
      case Nil
      have "length (take 4 t) \<noteq> length ''http''" using False by simp
      then have "take 4 t \<noteq> ''http''" by metis
      with Nil show ?thesis by (simp only: append_Nil2 not_False_eq_True)
    next
      case (Cons x xs)
      with assms(2) have x: "is_space x" by simp
      have "length t < 4" using False by simp
      then have "take 4 (t @ r) ! length t = x"
        using Cons by (simp add: nth_append)
      moreover have "length t < length (take 4 (t @ r))"
        using \<open>length t < 4\<close> Cons by simp
      ultimately have "x \<in> set (take 4 (t @ r))"
        by (metis nth_mem)
      moreover have "\<not> is_space c" if "c \<in> set ''http''" for c
        using that by (auto simp: is_space_def)
      ultimately show ?thesis using x by metis
    qed
    then have "match_url (t @ r) = None"
      unfolding match_url_def Let_def by (simp only: simp_thms if_False)
    with 1 show ?thesis by simp
  qed
qed

lemma has_url_token_append:
  assumes "\<forall>c \<in> set t. token_char c" and "r = [] \<or> is_space (hd r)"
  shows "has_url (t @ r) \<longleftrightarrow> has_url t \<or> has_url r"
  using assms(1)
proof (induction t)
  case Nil
  then show ?case by simp
next
  case (Cons c t)
  then have "is_token (c # t)" by (simp add: is_token_def)
  from match_url_token_append [OF this assms(2)] Cons show ?case
    by (simp split: option.splits)
qed

lemma has_url_space: "has_url (CHR '' '' # s) = has_url s"
  by (simp add: match_url_def)

lemma has_url_join:
  "\<forall>t \<in> set ts. is_token t \<Longrightarrow> has_url (join_ws ts) \<longleftrightarrow> (\<exists>t \<in> set ts. has_url t)"
proof (induction ts rule: join_ws.induct)
  case 1
  then show ?case by simp
next
  case (2 t)
  then show ?case by simp
next
  case (3 t u ts)
  then have "\<forall>c \<in> set t. token_char c" by (simp add: is_token_def)
  from has_url_token_append [OF this, of "CHR '' '' # join_ws (u # ts)"] 3 show ?case
    by (simp add: space_is_space has_url_space del: has_url.simps)
qed

lemma set_join_ws: "c \<in> set (join_ws ts) \<Longrightarrow> c = CHR '' '' \<or> (\<exists>t \<in> set ts. c \<in> set t)"
  by (induction ts rule: join_ws.induct) auto

lemma strip_token: "is_token t \<Longrightarrow> strip t \<noteq> []"
proof -
  assume t: "is_token t"
  then have "t \<noteq> []" and ns: "\<forall>c \<in> set t. \<not> is_space c"
    by (auto simp: is_token_def token_char_def)
  then have "dropWhile is_space t = t" by (cases t) auto
  moreover have "dropWhile is_space (rev t) = rev t"
    using ns \<open>t \<noteq> []\<close> by (cases "rev t") auto
  ultimately show ?thesis using \<open>t \<noteq> []\<close> by (simp add: strip_def)
qed

lemma preprocess_text_tokens: "t \<in> set (preprocess_text x) \<Longrightarrow> is_token t"
proof -
  assume "t \<in> set (preprocess_text x)"
  then obtain s where t: "t \<in> set (split_ws (lower (re_sub match_punct '' '' s)))"
    by (auto simp: preprocess_text_def Let_def or_empty_def)
  from split_ws_tokens [OF t] have ne: "t \<noteq> []"
    and cs: "\<forall>c \<in> set t. \<not> is_space c \<and> c \<in> set (lower (re_sub match_punct '' '' s))"
    by simp_all
  have "token_char c" if "c \<in> set t" for c
  proof -
    from cs that obtain d where d: "d \<in> set (re_sub match_punct '' '' s)" and c: "c = lower_char d"
      and ns: "\<not> is_space c"
      by (auto simp: lower_def)
    from re_sub_punct_chars [OF d] show ?thesis
    proof
      assume "is_word d" then show ?thesis using c by (simp add: lower_char_word)
    next
      assume "is_space d" with c ns show ?thesis by (simp add: lower_char_space)
    qed
  qed
  with ne show ?thesis by (simp add: is_token_def)
qed

lemma preprocess_text_join:
  assumes "\<forall>t \<in> set ts. is_token t" and "\<forall>t \<in> set ts. \<not> has_url t"
  shows "preprocess_text (Some (join_ws ts)) = ts"
proof -
  let ?j = "join_ws ts"
  have chars: "c = CHR '' '' \<or> token_char c" if "c \<in> set ?j" for c
    using set_join_ws [OF that] assms(1) by (auto simp: is_token_def)
  have 1: "re_sub match_url [] ?j = ?j"
    using assms by (intro re_sub_url_id) (simp add: has_url_join)
  have 2: "re_sub match_mention [] ?j = ?j"
    using chars by (intro re_sub_mention_id) (auto dest: token_char_not_lt)
  have 3: "re_sub match_punct '' '' ?j = ?j"
  proof (rule re_sub_punct_id, rule ballI)
    fix c assume "c \<in> set ?j"
    from chars [OF this] show "is_word c \<or> is_space c"
      by (auto simp: token_char_def space_is_space)
  qed
  have 4: "lower ?j = ?j"
    unfolding lower_def
  proof (rule map_idI)
    fix c assume "c \<in> set ?j"
    from chars [OF this] show "lower_char c = c"
      by (auto simp: token_char_def lower_char_space space_is_space)
  qed
  have 5: "split_ws ?j = ts" using assms(1) by (rule split_ws_join)
  have 6: "filter (\<lambda>t. strip t \<noteq> []) ts = ts"
    using assms(1) by (auto simp: filter_id_conv strip_token)
  show ?thesis
    by (simp add: preprocess_text_def or_empty_def 1 2 3 4 5 6)
qed

section \<open>Facts about the constructor of BM25Okapi\<close>

lemma update_not_Nil: "AList.update k v al \<noteq> []"
  by (cases al) auto

lemma frequencies_of_Nil_iff: "frequencies_of d = [] \<longleftrightarrow> d = []"
proof -
  have "fold count_word d acc = [] \<longleftrightarrow> acc = [] \<and> d = []" for acc
    by (induction d arbitrary: acc) (auto simp: count_word_def update_not_Nil)
  then show ?thesis by (simp add: frequencies_of_def)
qed

lemma fold_count_doc_Nil_iff: "fold count_doc fr nd = [] \<longleftrightarrow> nd = [] \<and> fr = []"
  by (induction fr arbitrary: nd) (auto simp: count_doc_def update_not_Nil)

lemma initialize_loop_result:
  "initialize_loop corpus (nd, num_doc, doc_len, doc_freqs, corpus_size) =
     (nd', num_doc', doc_len', doc_freqs', corpus_size') \<Longrightarrow>
   corpus_size' = corpus_size + length corpus \<and>
   doc_len' = doc_len @ map length corpus \<and>
   doc_freqs' = doc_freqs @ map frequencies_of corpus \<and>
   num_doc' = num_doc + sum_list (map length corpus) \<and>
   (nd' = [] \<longleftrightarrow> nd = [] \<and> (\<forall>d \<in> set corpus. d = []))"
proof (induction corpus arbitrary: nd num_doc doc_len doc_freqs corpus_size)
  case Nil
  then show ?case by simp
next
  case (Cons d corpus)
  from Cons.prems have
    "initialize_loop corpus
       (fold count_doc (frequencies_of d) nd, num_doc + length d, doc_len @ [length d],
        doc_freqs @ [frequencies_of d], corpus_size + 1) =
     (nd', num_doc', doc_len', doc_freqs', corpus_size')"
    by (simp add: Let_def)
  from Cons.IH [OF this] show ?case
    by (auto simp: fold_count_doc_Nil_iff frequencies_of_Nil_iff)
qed

lemma calc_idf_loop_Nil_iff:
  "fst (calc_idf_loop n nd (idf, s, neg)) = [] \<longleftrightarrow> idf = [] \<and> nd = []"
  by (induction nd arbitrary: idf s neg) (auto simp: Let_def update_not_Nil)

lemma BM25Okapi_ok_iff:
  "(\<exists>bm. BM25Okapi corpus k1 b = Inr bm) \<longleftrightarrow> (\<exists>d \<in> set corpus. d \<noteq> [])"
proof -
  obtain nd num_doc doc_len doc_freqs corpus_size where
    i: "initialize_loop corpus ([], 0, [], [], 0) = (nd, num_doc, doc_len, doc_freqs, corpus_size)"
    by (metis prod_cases5)
  obtain idf idf_sum negative_idfs where
    c: "calc_idf_loop corpus_size nd ([], 0, []) = (idf, idf_sum, negative_idfs)"
    by (metis prod_cases3)
  from initialize_loop_result [OF i] have
    size: "corpus_size = 0 \<longleftrightarrow> corpus = []" and nd: "nd = [] \<longleftrightarrow> (\<forall>d \<in> set corpus. d = [])"
    by simp_all
  from calc_idf_loop_Nil_iff [of corpus_size nd "[]" 0 "[]"] c have idf: "idf = [] \<longleftrightarrow> nd = []"
    by simp
  have "BM25Okapi corpus k1 b = Inl ZeroDivisionError" if "\<forall>d \<in> set corpus. d = []"
    using that size nd idf by (simp add: BM25Okapi_def i c)
  moreover have "\<exists>bm. BM25Okapi corpus k1 b = Inr bm" if "\<exists>d \<in> set corpus. d \<noteq> []"
  proof -
    from that have "corpus \<noteq> []" by auto
    with that size nd idf show ?thesis by (simp add: BM25Okapi_def i c Let_def)
  qed
  ultimately show ?thesis by (metis sum.distinct(1))
qed

text \<open>
  An object that the constructor returns has the shapes that \<open>get_scores\<close> combines:
  one document length and one frequency table for each document.
\<close>

lemma BM25Okapi_shape:
  assumes "BM25Okapi corpus k1 b = Inr bm"
  shows "bm_corpus_size bm = length corpus \<and> length (bm_doc_len bm) = length corpus
     \<and> length (bm_doc_freqs bm) = length corpus"
proof -
  obtain nd num_doc doc_len doc_freqs corpus_size where
    i: "initialize_loop corpus ([], 0, [], [], 0) = (nd, num_doc, doc_len, doc_freqs, corpus_size)"
    by (metis prod_cases5)
  from initialize_loop_result [OF i] assms show ?thesis
    by (auto simp: BM25Okapi_def i Let_def split: prod.splits if_splits)
qed

section \<open>Facts about search\<close>

lemma collect_eq:
  "collect ids scores idxs out = Inr r \<Longrightarrow>
     r = out @ map (\<lambda>i. (ids ! i, scores ! i)) (filter (\<lambda>i. scores ! i > 0) idxs)"
proof (induction idxs arbitrary: out)
  case Nil
  then show ?case by simp
next
  case (Cons i idxs)
  show ?case
  proof (cases "scores ! i > 0")
    case True
    with Cons.prems have "collect ids scores idxs (out @ [(ids ! i, scores ! i)]) = Inr r"
      by (simp split: if_splits)
    from Cons.IH [OF this] True show ?thesis by simp
  next
    case False
    with Cons.prems have "collect ids scores idxs out = Inr r" by simp
    from Cons.IH [OF this] False show ?thesis by simp
  qed
qed

lemma collect_none:
  "\<forall>i \<in> set idxs. \<not> scores ! i > 0 \<Longrightarrow> collect ids scores idxs out = Inr out"
  by (induction idxs arbitrary: out) auto

lemma slice_from_drop: "\<exists>j. slice_from start xs = drop j xs"
  by (auto simp: slice_from_def)

lemma sorted_argsort: "sorted (map (\<lambda>i. scores ! i) (argsort scores))"
  by (simp add: argsort_def)

lemma set_argsort: "set (argsort scores) = {0..<length scores}"
  by (simp add: argsort_def)

lemma top_idx_descending:
  "sorted_wrt (\<lambda>i j. scores ! j \<le> scores ! i) (rev (slice_from start (argsort scores)))"
proof -
  obtain j where j: "slice_from start (argsort scores) = drop j (argsort scores)"
    using slice_from_drop by blast
  have "sorted_wrt (\<lambda>i j. scores ! i \<le> scores ! j) (argsort scores)"
    using sorted_argsort [of scores] by (simp add: sorted_map)
  then have "sorted_wrt (\<lambda>i j. scores ! i \<le> scores ! j) (drop j (argsort scores))"
    by (rule sorted_wrt_drop)
  then show ?thesis
    by (simp add: j sorted_wrt_rev)
qed

text \<open>What a search that returns has returned.\<close>

lemma search_results:
  assumes "search files index_path query top_k = Inr r"
  obtains "r = []"
  | data scores where "files index_path = Some (PickleFile data)"
      and "scores = get_scores (p_bm25 data) (preprocess_text (Some query))"
      and "r = map (\<lambda>i. (p_doc_ids data ! i, scores ! i))
                 (filter (\<lambda>i. scores ! i > 0) (rev (slice_from (- top_k) (argsort scores))))"
  using assms
  by (auto simp: search_def load_pickle_def Let_def dest!: collect_eq
      split: option.splits file_content.splits)

text \<open>With a positive \<open>top_k\<close> the slice keeps at most \<open>top_k\<close> indices.\<close>

lemma search_positive_top_k:
  assumes "search files index_path query top_k = Inr r" and "0 < top_k"
  shows "int (length r) \<le> top_k \<and> (\<forall>x \<in> set r. 0 < snd x)"
  using assms(1)
proof (cases rule: search_results)
  case 1
  then show ?thesis using assms(2) by simp
next
  case (2 data scores)
  have "length r \<le> length (slice_from (- top_k) (argsort scores))"
    unfolding 2(3) length_map
    by (rule order_trans [OF length_filter_le]) simp
  also have "int \<dots> \<le> top_k"
    using assms(2) by (auto simp: slice_from_def)
  finally have "int (length r) \<le> top_k" by simp
  moreover have "\<forall>x \<in> set r. 0 < snd x" by (auto simp: 2(3))
  ultimately show ?thesis by blast
qed

section \<open>Facts about build_index and add_documents\<close>

lemma build_index_ok:
  assumes "build_index files corpus_json_path index_path k1 b = Inr (files', n, m)"
  shows "\<exists>data f loaded.
           files corpus_json_path = Some (JsonFile data) \<and>
           files' index_path = Some f \<and> load_pickle f = Inr loaded \<and>
           p_doc_ids loaded = map msg_id (get_docs data) \<and>
           p_tokenized_corpus loaded = map doc_tokens (get_docs data) \<and>
           BM25Okapi (map doc_tokens (get_docs data)) k1 b = Inr (p_bm25 loaded) \<and>
           bm_k1 (p_bm25 loaded) = k1 \<and> bm_b (p_bm25 loaded) = b"
proof -
  from assms obtain data where d: "files corpus_json_path = Some (JsonFile data)"
    by (auto simp: build_index_def load_json_def split: option.splits file_content.splits)
  from assms d obtain bm where bm: "BM25Okapi (map doc_tokens (get_docs data)) k1 b = Inr bm"
    and f: "files' = files(index_path \<mapsto> PickleFile
              \<lparr> p_bm25 = bm, p_doc_ids = map msg_id (get_docs data),
                p_tokenized_corpus = map doc_tokens (get_docs data) \<rparr>)"
    by (auto simp: build_index_def load_json_def build_loop_maps Let_def split: sum.splits)
  show ?thesis
    using d bm f BM25Okapi_params [OF bm] by (simp add: load_pickle_def)
qed

lemma extend_and_save_ok:
  assumes "extend_and_save files index_path toks ids docs k1 b = Inr (files', added)"
  shows "added = length docs \<and>
     stored_doc_ids files' index_path = ids @ map new_id docs \<and>
     stored_corpus files' index_path = toks @ map doc_tokens docs"
  using assms
  by (auto simp: extend_and_save_def add_loop_maps Let_def stored_doc_ids_def
      stored_corpus_def split: sum.splits if_splits)

lemma BM25Okapi_no_token:
  assumes "\<forall>d \<in> set corpus. d = []"
  shows "BM25Okapi corpus k1 b = Inl ZeroDivisionError"
proof (cases "BM25Okapi corpus k1 b")
  case (Inl e)
  then show ?thesis using BM25Okapi_error by blast
next
  case (Inr bm)
  then show ?thesis using BM25Okapi_ok_iff [of corpus k1 b] assms by blast
qed

lemma extend_and_save_no_token:
  assumes "\<forall>d \<in> set (toks @ map doc_tokens docs). d = []"
  shows "extend_and_save files index_path toks ids docs k1 b = Inl ZeroDivisionError"
  using BM25Okapi_no_token [OF assms, of k1 b]
  by (simp add: extend_and_save_def add_loop_maps Let_def)

lemma extend_and_save_files:
  "extend_and_save (files(index_path \<mapsto> f)) index_path toks ids docs k1 b
     = extend_and_save files index_path toks ids docs k1 b"
  by (simp add: extend_and_save_def Let_def split: prod.splits sum.splits)

lemma open_wb_idx: "open_wb ''idx/bm25.pkl'' = Inr ()"
  by (simp add: open_wb_def)

section \<open>Facts about the example stores\<close>

lemma scenario_tokens:
  "map doc_tokens scenario_docs = [[''the'', ''cat'', ''sat''], [''the'', ''dog'', ''ran'']]"
  by code_simp

lemma three_tokens: "map doc_tokens three_docs = [[''cat''], [''dog''], [''bird'']]"
  by code_simp

lemma dirname_idx: "dirname ''idx/bm25.pkl'' = ''idx''"
  by code_simp

lemma scenario_bm25:
  "BM25Okapi [[''the'', ''cat'', ''sat''], [''the'', ''dog'', ''ran'']] (6 / 5) (3 / 4)
     = Inr (p_bm25 scenario_index)"
  by (simp add: scenario_index_def BM25Okapi_def frequencies_of_def count_word_def
      count_doc_def raw_idf_def Let_def)

lemma three_bm25:
  "BM25Okapi [[''cat''], [''dog''], [''bird'']] (6 / 5) (3 / 4) = Inr (p_bm25 three_index)"
  by (simp add: three_index_def BM25Okapi_def frequencies_of_def count_word_def
      count_doc_def raw_idf_def Let_def)

lemma build_scenario:
  "build_index scenario_files ''corpus.json'' ''idx/bm25.pkl'' 1.2 0.75
     = Inr (scenario_store, 2, 2)"
proof -
  have ids: "map msg_id scenario_docs = [Some ''1'', Some ''2'']"
    and len: "length scenario_docs = 2"
    by (simp_all add: scenario_docs_def doc_def)
  have ix: "\<lparr> p_bm25 = p_bm25 scenario_index, p_doc_ids = [Some ''1'', Some ''2''],
      p_tokenized_corpus = [[''the'', ''cat'', ''sat''], [''the'', ''dog'', ''ran'']] \<rparr>
      = scenario_index"
    by (simp add: scenario_index_def)
  have "build_index files ''corpus.json'' ''idx/bm25.pkl'' 1.2 0.75
      = Inr (files(''idx/bm25.pkl'' \<mapsto> PickleFile scenario_index), 2, 2)"
    if "files ''corpus.json'' = Some (JsonFile (Some scenario_docs))" for files
    using that
    by (simp add: build_index_def load_json_def get_docs_def build_loop_maps scenario_tokens
        scenario_bm25 dirname_idx makedirs_def open_wb_idx ids len ix)
  then show ?thesis by (simp add: scenario_store_def scenario_files_def)
qed

lemma build_three:
  "build_index three_files ''corpus.json'' ''idx/bm25.pkl'' 1.2 0.75 = Inr (three_store, 3, 3)"
proof -
  have ids: "map msg_id three_docs = [Some ''1'', Some ''2'', Some ''3'']"
    and len: "length three_docs = 3"
    by (simp_all add: three_docs_def doc_def)
  have ix: "\<lparr> p_bm25 = p_bm25 three_index, p_doc_ids = [Some ''1'', Some ''2'', Some ''3''],
      p_tokenized_corpus = [[''cat''], [''dog''], [''bird'']] \<rparr> = three_index"
    by (simp add: three_index_def)
  have "build_index files ''corpus.json'' ''idx/bm25.pkl'' 1.2 0.75
      = Inr (files(''idx/bm25.pkl'' \<mapsto> PickleFile three_index), 3, 3)"
    if "files ''corpus.json'' = Some (JsonFile (Some three_docs))" for files
    using that
    by (simp add: build_index_def load_json_def get_docs_def build_loop_maps three_tokens
        three_bm25 dirname_idx makedirs_def open_wb_idx ids len ix)
  then show ?thesis by (simp add: three_store_def three_files_def)
qed

lemma query_cat: "preprocess_text (Some ''cat'') = [''cat'']"
  by code_simp

lemma query_the: "preprocess_text (Some ''the'') = [''the'']"
  by code_simp

lemma query_zebra: "preprocess_text (Some ''zebra'') = [''zebra'']"
  by code_simp

lemma query_cat_dog: "preprocess_text (Some ''cat dog'') = [''cat'', ''dog'']"
  by code_simp

lemma query_punctuation: "preprocess_text (Some ''?!'') = []"
  by code_simp

lemmas search_eval =
  search_def load_pickle_def get_scores_def term_scores_def argsort_def slice_from_def Let_def

lemma scenario_cat: "search scenario_store ''idx/bm25.pkl'' ''cat'' 50 = Inr []"
  by (simp add: search_eval scenario_store_def scenario_index_def query_cat)

lemma scenario_the: "search scenario_store ''idx/bm25.pkl'' ''the'' 50 = Inr []"
  by (simp add: search_eval scenario_store_def scenario_index_def query_the)

lemma scenario_zebra: "search scenario_store ''idx/bm25.pkl'' ''zebra'' 50 = Inr []"
  by (simp add: search_eval scenario_store_def scenario_index_def query_zebra)

lemma three_cat_dog:
  "search three_store ''idx/bm25.pkl'' ''cat dog'' 50
     = Inr [(Some ''2'', ln 2.5 - ln 1.5), (Some ''1'', ln 2.5 - ln 1.5)]"
  by (simp add: search_eval three_store_def three_index_def query_cat_dog)

lemma three_cat_zero:
  "search three_store ''idx/bm25.pkl'' ''cat'' 0 = Inr [(Some ''1'', ln 2.5 - ln 1.5)]"
  by (simp add: search_eval three_store_def three_index_def query_cat)

text \<open>The scores behind the three searches of the scenario.\<close>

lemma scenario_scores:
  "get_scores (p_bm25 scenario_index) [''cat''] = [0, 0]"
  "get_scores (p_bm25 scenario_index) [''zebra''] = [0, 0]"
  "get_scores (p_bm25 scenario_index) [''the'']
     = [0.25 * ((ln 0.5 - ln 2.5) / 5), 0.25 * ((ln 0.5 - ln 2.5) / 5)]"
  "0.25 * ((ln 0.5 - ln 2.5) / 5) < (0 :: real)"
  by (simp_all add: get_scores_def term_scores_def scenario_index_def numeral_2_eq_2)

lemma fish_tokens: "doc_tokens (doc ''4'' ''fish'') = [''fish'']"
  by code_simp

lemma add_fish:
  "\<exists>files''. add_documents three_store ''idx/bm25.pkl'' [doc ''4'' ''fish''] 1.2 0.75 1000
      = ([], Inr (files'', 1))"
proof -
  obtain bm where
    "BM25Okapi [[''cat''], [''dog''], [''bird''], [''fish'']] (6 / 5) (3 / 4) = Inr bm"
    using BM25Okapi_ok_iff [of "[[''cat''], [''dog''], [''bird''], [''fish'']]" "6 / 5" "3 / 4"]
    by auto
  then show ?thesis
    by (simp add: add_documents_def three_store_def three_index_def load_pickle_def
        extend_and_save_def add_loop_maps fish_tokens dirname_idx makedirs_def open_wb_idx)
qed

lemma add_three:
  "add_documents Map.empty ''idx/bm25.pkl'' three_docs 1.2 0.75 1000
     = ([warning], Inr ([''idx/bm25.pkl'' \<mapsto> PickleFile three_index], 3))"
proof -
  have ids: "map new_id three_docs = [Some ''1'', Some ''2'', Some ''3'']"
    and len: "length three_docs = 3"
    by (simp_all add: three_docs_def doc_def new_id_def py_or_def truthy_def)
  have ix: "\<lparr> p_bm25 = p_bm25 three_index, p_doc_ids = [Some ''1'', Some ''2'', Some ''3''],
      p_tokenized_corpus = [[''cat''], [''dog''], [''bird'']] \<rparr> = three_index"
    by (simp add: three_index_def)
  show ?thesis
    by (simp add: add_documents_def extend_and_save_def add_loop_maps three_tokens
        three_bm25 dirname_idx makedirs_def open_wb_idx ids len ix)
qed

section \<open>The claims\<close>

text \<open>
  C10. The parameter \<open>rebuild_threshold\<close> of \<open>add_documents\<close> has no effect: two calls
  that differ in it only print the same, leave the same files and return the same.
\<close>

theorem add_documents_ignores_rebuild_threshold:
  "add_documents files index_path docs k1 b t1 = add_documents files index_path docs k1 b t2"
  by (simp add: add_documents_def)

text \<open>
  C5. A build that succeeds leaves at the index path a store that loads, and the loaded
  store holds the document ids and the token sequences that the build computed from
  the corpus, in their order, and a scorer built from these token sequences with the
  \<open>k1\<close> and \<open>b\<close> of the call.
\<close>

theorem build_then_load:
  assumes "build_index files corpus_json_path index_path k1 b = Inr (files', n, m)"
  shows "\<exists>data f loaded.
           files corpus_json_path = Some (JsonFile data) \<and>
           files' index_path = Some f \<and> load_pickle f = Inr loaded \<and>
           p_doc_ids loaded = map msg_id (get_docs data) \<and>
           p_tokenized_corpus loaded = map doc_tokens (get_docs data) \<and>
           BM25Okapi (map doc_tokens (get_docs data)) k1 b = Inr (p_bm25 loaded) \<and>
           bm_k1 (p_bm25 loaded) = k1 \<and> bm_b (p_bm25 loaded) = b"
  using assms by (rule build_index_ok)

theorem build_then_load_witness:
  "build_index scenario_files ''corpus.json'' ''idx/bm25.pkl'' 1.2 0.75
     = Inr (scenario_store, 2, 2) \<and>
   (\<exists>data f loaded.
      scenario_files ''corpus.json'' = Some (JsonFile data) \<and>
      scenario_store ''idx/bm25.pkl'' = Some f \<and> load_pickle f = Inr loaded \<and>
      p_doc_ids loaded = map msg_id (get_docs data) \<and>
      p_tokenized_corpus loaded = map doc_tokens (get_docs data) \<and>
      BM25Okapi (map doc_tokens (get_docs data)) 1.2 0.75 = Inr (p_bm25 loaded) \<and>
      bm_k1 (p_bm25 loaded) = 1.2 \<and> bm_b (p_bm25 loaded) = 0.75)"
  by (rule conjI [OF build_scenario build_then_load [OF build_scenario]])

text \<open>
  C2, as amended. The results of a search are in non-increasing order of score. (The
  order of results with equal scores is that of the reversed \<open>argsort\<close>; it is not
  the ascending order of their positions in the corpus.)
\<close>

theorem search_sorted:
  assumes "search files index_path query top_k = Inr r"
  shows "sorted_wrt (\<lambda>x y. snd y \<le> snd x) r"
  using assms
proof (cases rule: search_results)
  case 1
  then show ?thesis by simp
next
  case (2 data scores)
  have "sorted_wrt (\<lambda>i j. scores ! j \<le> scores ! i)
          (filter (\<lambda>i. scores ! i > 0) (rev (slice_from (- top_k) (argsort scores))))"
    by (rule sorted_wrt_filter) (rule top_idx_descending)
  then show ?thesis by (simp add: 2(3) sorted_wrt_map)
qed

theorem search_sorted_witness:
  "search three_store ''idx/bm25.pkl'' ''cat dog'' 50
     = Inr [(Some ''2'', ln 2.5 - ln 1.5), (Some ''1'', ln 2.5 - ln 1.5)] \<and>
   sorted_wrt (\<lambda>x y. snd y \<le> snd x)
     [(Some ''2'', ln 2.5 - ln 1.5), (Some ''1'', ln 2.5 - ln 1.5 :: real)]"
  by (rule conjI [OF three_cat_dog search_sorted [OF three_cat_dog]])

text \<open>
  C2 as stated fails: in the store built from the documents \<open>1\<close>, \<open>2\<close> and \<open>3\<close> (in
  this order) the query \<^verbatim>\<open>cat dog\<close> gives the documents \<open>1\<close> and \<open>2\<close> the same score,
  and the search returns document \<open>2\<close> before document \<open>1\<close>.
\<close>

theorem search_ties_counterexample:
  "build_index three_files ''corpus.json'' ''idx/bm25.pkl'' 1.2 0.75 = Inr (three_store, 3, 3) \<and>
   stored_doc_ids three_store ''idx/bm25.pkl'' = [Some ''1'', Some ''2'', Some ''3''] \<and>
   search three_store ''idx/bm25.pkl'' ''cat dog'' 50
     = Inr [(Some ''2'', ln 2.5 - ln 1.5), (Some ''1'', ln 2.5 - ln 1.5)]"
proof -
  have "stored_doc_ids three_store ''idx/bm25.pkl'' = [Some ''1'', Some ''2'', Some ''3'']"
    by (simp add: stored_doc_ids_def three_store_def three_index_def)
  with build_three three_cat_dog show ?thesis by blast
qed

text \<open>
  C3 at \<open>top_k = 0\<close>: the slice \<^verbatim>\<open>[-0:]\<close> keeps every index, and the search returns one
  result where the claim allows none.
\<close>

theorem search_top_k_zero:
  "build_index three_files ''corpus.json'' ''idx/bm25.pkl'' 1.2 0.75 = Inr (three_store, 3, 3) \<and>
   search three_store ''idx/bm25.pkl'' ''cat'' 0 = Inr [(Some ''1'', ln 2.5 - ln 1.5)]"
  using build_three three_cat_zero by blast

text \<open>
  C9. On a store that holds an index, a search whose query has no token returns the
  empty list: every score is \<open>0\<close> and no index passes the test \<^verbatim>\<open>scores[idx] > 0\<close>.
\<close>

theorem search_empty_query:
  assumes "files index_path = Some (PickleFile data)"
    and "preprocess_text (Some query) = []"
  shows "search files index_path query top_k = Inr []"
proof -
  let ?scores = "replicate (bm_corpus_size (p_bm25 data)) (0::real)"
  let ?idxs = "rev (slice_from (- top_k) (argsort ?scores))"
  have "set ?idxs \<subseteq> {0..<length ?scores}"
    using set_argsort [of ?scores] set_drop_subset [of _ "argsort ?scores"]
      slice_from_drop [of "- top_k" "argsort ?scores"]
    by (metis set_rev)
  then have "\<forall>i \<in> set ?idxs. \<not> ?scores ! i > 0"
    by auto
  then have "collect (p_doc_ids data) ?scores ?idxs [] = Inr []"
    by (rule collect_none)
  then show ?thesis
    using assms by (simp add: search_def load_pickle_def get_scores_def Let_def)
qed

theorem search_empty_query_witness:
  "scenario_store ''idx/bm25.pkl'' = Some (PickleFile scenario_index) \<and>
   preprocess_text (Some ''?!'') = [] \<and>
   search scenario_store ''idx/bm25.pkl'' ''?!'' 50 = Inr []"
proof -
  have s: "scenario_store ''idx/bm25.pkl'' = Some (PickleFile scenario_index)"
    by (simp add: scenario_store_def)
  have "search scenario_store ''idx/bm25.pkl'' ''?!'' 50 = Inr []"
    using s query_punctuation by (rule search_empty_query)
  with s query_punctuation show ?thesis by blast
qed

text \<open>
  C1, as amended. For the corpus of the scenario, built with \<open>k1 = 1.2\<close> and
  \<open>b = 0.75\<close>, the searches for \<^verbatim>\<open>cat\<close>, \<^verbatim>\<open>the\<close> and \<^verbatim>\<open>zebra\<close> all return the empty list:
  \<^verbatim>\<open>cat\<close> occurs in one of two documents, its inverse document frequency is
  \<open>ln 1.5 - ln 1.5 = 0\<close> and so is the score of document \<open>1\<close>; \<^verbatim>\<open>the\<close> occurs in both,
  its negative inverse document frequency is replaced by \<open>epsilon\<close> times the (negative)
  average, and both scores are negative.
\<close>

theorem scenario_searches:
  "build_index scenario_files ''corpus.json'' ''idx/bm25.pkl'' 1.2 0.75
     = Inr (scenario_store, 2, 2) \<and>
   search scenario_store ''idx/bm25.pkl'' ''cat'' 50 = Inr [] \<and>
   search scenario_store ''idx/bm25.pkl'' ''the'' 50 = Inr [] \<and>
   search scenario_store ''idx/bm25.pkl'' ''zebra'' 50 = Inr []"
  using build_scenario scenario_cat scenario_the scenario_zebra by blast

text \<open>
  C1 as stated fails: the search for \<^verbatim>\<open>cat\<close> does not return document \<open>1\<close>, whose
  score is \<open>0\<close>.
\<close>

theorem scenario_cat_counterexample:
  "build_index scenario_files ''corpus.json'' ''idx/bm25.pkl'' 1.2 0.75
     = Inr (scenario_store, 2, 2) \<and>
   get_scores (p_bm25 scenario_index) (preprocess_text (Some ''cat'')) = [0, 0] \<and>
   search scenario_store ''idx/bm25.pkl'' ''cat'' 50 = Inr []"
proof -
  have "get_scores (p_bm25 scenario_index) (preprocess_text (Some ''cat'')) = [0, 0]"
    using scenario_scores(1) by (simp only: query_cat)
  with build_scenario scenario_cat show ?thesis by blast
qed

text \<open>
  C4 on a corpus without documents: the constructor of \<open>BM25Okapi\<close> divides by the
  number of documents, so \<open>build_index\<close> raises on the corpus files \<^verbatim>\<open>{"docs": []}\<close>
  and \<^verbatim>\<open>{}\<close>, and \<open>add_documents\<close> raises when neither the store nor the call has a
  document. Nothing is written.
\<close>

theorem empty_corpus_raises:
  "build_index [''corpus.json'' \<mapsto> JsonFile (Some [])] ''corpus.json'' ''idx/bm25.pkl'' 1.2 0.75
     = Inl ZeroDivisionError \<and>
   build_index [''corpus.json'' \<mapsto> JsonFile None] ''corpus.json'' ''idx/bm25.pkl'' 1.2 0.75
     = Inl ZeroDivisionError \<and>
   add_documents Map.empty ''idx/bm25.pkl'' [] 1.2 0.75 1000
     = ([warning], Inl ZeroDivisionError)"
  by (simp add: build_index_def load_json_def get_docs_def add_documents_def
      extend_and_save_def BM25Okapi_def)

text \<open>
  C6. The store that a build leaves holds, position by position, the id and the tokens
  of the document at that position of the corpus, so the two sequences have the same
  length. An \<open>add_documents\<close> that succeeds keeps both stored sequences as prefixes and
  appends to them, position by position, the id and the tokens of each new document;
  equal lengths before give equal lengths after.
\<close>

theorem parallel_sequences:
  "(build_index files corpus_json_path index_path k1 b = Inr (files', n, m) \<longrightarrow>
      (\<exists>data. files corpus_json_path = Some (JsonFile data) \<and>
         stored_doc_ids files' index_path = map msg_id (get_docs data) \<and>
         stored_corpus files' index_path = map doc_tokens (get_docs data) \<and>
         n = length (get_docs data) \<and> m = length (get_docs data)) \<and>
      length (stored_doc_ids files' index_path) = length (stored_corpus files' index_path)) \<and>
   (add_documents files index_path docs k1 b t = (err, Inr (files'', added)) \<longrightarrow>
      stored_doc_ids files'' index_path = stored_doc_ids files index_path @ map new_id docs \<and>
      stored_corpus files'' index_path = stored_corpus files index_path @ map doc_tokens docs \<and>
      added = length docs \<and>
      (length (stored_doc_ids files index_path) = length (stored_corpus files index_path) \<longrightarrow>
       length (stored_doc_ids files'' index_path) = length (stored_corpus files'' index_path)))"
proof (intro conjI impI)
  assume b: "build_index files corpus_json_path index_path k1 b = Inr (files', n, m)"
  from build_index_ok [OF b] obtain data f loaded where
    d: "files corpus_json_path = Some (JsonFile data)"
    and "files' index_path = Some f" "load_pickle f = Inr loaded"
    "p_doc_ids loaded = map msg_id (get_docs data)"
    "p_tokenized_corpus loaded = map doc_tokens (get_docs data)"
    by blast
  then have *: "stored_doc_ids files' index_path = map msg_id (get_docs data)"
    "stored_corpus files' index_path = map doc_tokens (get_docs data)"
    by (auto simp: stored_doc_ids_def stored_corpus_def load_pickle_def
        split: file_content.splits)
  from b d have "n = length (get_docs data)" "m = length (get_docs data)"
    by (auto simp: build_index_def load_json_def build_loop_maps Let_def split: sum.splits)
  with d * show "\<exists>data. files corpus_json_path = Some (JsonFile data) \<and>
         stored_doc_ids files' index_path = map msg_id (get_docs data) \<and>
         stored_corpus files' index_path = map doc_tokens (get_docs data) \<and>
         n = length (get_docs data) \<and> m = length (get_docs data)"
    by blast
  from * show "length (stored_doc_ids files' index_path) = length (stored_corpus files' index_path)"
    by simp
next
  assume a: "add_documents files index_path docs k1 b t = (err, Inr (files'', added))"
  then have "extend_and_save files index_path (stored_corpus files index_path)
      (stored_doc_ids files index_path) docs k1 b = Inr (files'', added)"
    by (auto simp: add_documents_def load_pickle_def stored_doc_ids_def stored_corpus_def
        split: option.splits file_content.splits)
  from extend_and_save_ok [OF this] show
    ids: "stored_doc_ids files'' index_path = stored_doc_ids files index_path @ map new_id docs"
    and toks: "stored_corpus files'' index_path
        = stored_corpus files index_path @ map doc_tokens docs"
    and "added = length docs"
    by simp_all
  assume "length (stored_doc_ids files index_path) = length (stored_corpus files index_path)"
  with ids toks show
    "length (stored_doc_ids files'' index_path) = length (stored_corpus files'' index_path)"
    by simp
qed

theorem parallel_sequences_witness:
  "build_index three_files ''corpus.json'' ''idx/bm25.pkl'' 1.2 0.75 = Inr (three_store, 3, 3) \<and>
   three_files ''corpus.json'' = Some (JsonFile (Some three_docs)) \<and>
   stored_doc_ids three_store ''idx/bm25.pkl'' = map msg_id three_docs \<and>
   stored_doc_ids three_store ''idx/bm25.pkl'' = [Some ''1'', Some ''2'', Some ''3''] \<and>
   stored_corpus three_store ''idx/bm25.pkl'' = map doc_tokens three_docs \<and>
   stored_corpus three_store ''idx/bm25.pkl'' = [[''cat''], [''dog''], [''bird'']] \<and>
   (\<exists>files''.
      add_documents three_store ''idx/bm25.pkl'' [doc ''4'' ''fish''] 1.2 0.75 1000
        = ([], Inr (files'', 1)) \<and>
      stored_doc_ids files'' ''idx/bm25.pkl'' = [Some ''1'', Some ''2'', Some ''3'', Some ''4''] \<and>
      stored_corpus files'' ''idx/bm25.pkl'' = [[''cat''], [''dog''], [''bird''], [''fish'']])"
proof -
  obtain files'' where a:
    "add_documents three_store ''idx/bm25.pkl'' [doc ''4'' ''fish''] 1.2 0.75 1000
       = ([], Inr (files'', 1))"
    using add_fish by blast
  have c: "three_files ''corpus.json'' = Some (JsonFile (Some three_docs))"
    by (simp add: three_files_def)
  have ids: "map msg_id three_docs = [Some ''1'', Some ''2'', Some ''3'']"
    by (simp add: three_docs_def doc_def)
  have new: "new_id (doc ''4'' ''fish'') = Some ''4''"
    by (simp add: new_id_def py_or_def truthy_def doc_def)
  obtain data where "three_files ''corpus.json'' = Some (JsonFile data)"
    and "stored_doc_ids three_store ''idx/bm25.pkl'' = map msg_id (get_docs data)"
    and "stored_corpus three_store ''idx/bm25.pkl'' = map doc_tokens (get_docs data)"
    using parallel_sequences [THEN conjunct1, rule_format, OF build_three] by blast
  with c have old: "stored_doc_ids three_store ''idx/bm25.pkl'' = map msg_id three_docs"
    "stored_corpus three_store ''idx/bm25.pkl'' = map doc_tokens three_docs"
    by (simp_all add: get_docs_def)
  have "stored_doc_ids files'' ''idx/bm25.pkl''
      = stored_doc_ids three_store ''idx/bm25.pkl'' @ map new_id [doc ''4'' ''fish'']"
    and "stored_corpus files'' ''idx/bm25.pkl''
      = stored_corpus three_store ''idx/bm25.pkl'' @ map doc_tokens [doc ''4'' ''fish'']"
    using parallel_sequences [THEN conjunct2, rule_format, OF a] by blast+
  then have "stored_doc_ids files'' ''idx/bm25.pkl''
      = [Some ''1'', Some ''2'', Some ''3'', Some ''4'']"
    and "stored_corpus files'' ''idx/bm25.pkl'' = [[''cat''], [''dog''], [''bird''], [''fish'']]"
    by (simp_all add: old ids three_tokens new fish_tokens)
  moreover have "stored_doc_ids three_store ''idx/bm25.pkl'' = [Some ''1'', Some ''2'', Some ''3'']"
    "stored_corpus three_store ''idx/bm25.pkl'' = [[''cat''], [''dog''], [''bird'']]"
    by (simp_all add: old ids three_tokens)
  ultimately show ?thesis using build_three c old a by blast
qed

subsection \<open>Missing files\<close>

text \<open>
  \<open>build_index\<close> raises the error \<^verbatim>\<open>Corpus not found\<close> exactly when the corpus path does
  not exist.
\<close>

lemma build_index_corpus_not_found:
  "build_index files corpus_json_path index_path k1 b
      = Inl (FileNotFoundError (''Corpus not found: '' @ corpus_json_path))
    \<longleftrightarrow> files corpus_json_path = None"
proof
  assume e: "build_index files corpus_json_path index_path k1 b
    = Inl (FileNotFoundError (''Corpus not found: '' @ corpus_json_path))"
  show "files corpus_json_path = None"
  proof (rule ccontr)
    assume "files corpus_json_path \<noteq> None"
    then obtain f where f: "files corpus_json_path = Some f" by blast
    with e show False
      by (auto simp: build_index_def load_json_def build_loop_maps makedirs_def open_wb_def
          Let_def split: file_content.splits sum.splits if_splits dest: BM25Okapi_error)
  qed
next
  assume "files corpus_json_path = None"
  then show "build_index files corpus_json_path index_path k1 b
    = Inl (FileNotFoundError (''Corpus not found: '' @ corpus_json_path))"
    by (simp add: build_index_def)
qed

text \<open>On an index path that does not exist \<open>search\<close> returns the empty list.\<close>

lemma search_missing_store:
  "files index_path = None \<Longrightarrow> search files index_path query top_k = Inr []"
  by (simp add: search_def)

text \<open>
  On an index path that does not exist \<open>add_documents\<close> prints the warning and goes on
  as from a store with no id and no tokens: its outcome is the one it has on that store.
\<close>

lemma add_documents_missing_store:
  "files index_path = None \<Longrightarrow>
     add_documents files index_path docs k1 b t
       = ([warning],
          snd (add_documents
                 (files(index_path \<mapsto> PickleFile
                    \<lparr> p_bm25 = bm, p_doc_ids = [], p_tokenized_corpus = [] \<rparr>))
                 index_path docs k1 b t))"
  by (simp add: add_documents_def load_pickle_def extend_and_save_files)

text \<open>
  When none of the new documents has a token, going on from the empty store ends in
  the division by zero of the constructor of \<open>BM25Okapi\<close>.
\<close>

lemma add_documents_missing_store_no_token:
  assumes "files index_path = None" and "\<forall>d \<in> set docs. doc_tokens d = []"
  shows "add_documents files index_path docs k1 b t = ([warning], Inl ZeroDivisionError)"
  using assms extend_and_save_no_token [of "[]" docs files index_path "[]" k1 b]
  by (simp add: add_documents_def)

text \<open>
  C7 on a missing store and a call without documents, or with a document without
  tokens: \<open>add_documents\<close> prints the warning and raises \<^verbatim>\<open>ZeroDivisionError\<close>, where
  the claim says that it proceeds without error.
\<close>

theorem missing_store_add_raises:
  "add_documents Map.empty ''idx/bm25.pkl'' [] 1.2 0.75 1000
     = ([warning], Inl ZeroDivisionError) \<and>
   doc_tokens (doc ''1'' ''?!'') = [] \<and>
   add_documents Map.empty ''idx/bm25.pkl'' [doc ''1'' ''?!''] 1.2 0.75 1000
     = ([warning], Inl ZeroDivisionError)"
proof -
  have t: "doc_tokens (doc ''1'' ''?!'') = []"
    by code_simp
  have "add_documents Map.empty ''idx/bm25.pkl'' [] 1.2 0.75 1000
     = ([warning], Inl ZeroDivisionError)"
    by (rule add_documents_missing_store_no_token) simp_all
  moreover have "add_documents Map.empty ''idx/bm25.pkl'' [doc ''1'' ''?!''] 1.2 0.75 1000
     = ([warning], Inl ZeroDivisionError)"
    by (rule add_documents_missing_store_no_token) (simp_all add: t)
  ultimately show ?thesis using t by blast
qed

text \<open>
  C8, as amended. For every ASCII text none of whose tokens contains a match of
  \<^verbatim>\<open>http\S+\<close> (the letters \<^verbatim>\<open>http\<close> followed by at least one more character),
  normalizing the whitespace-join of its tokens gives the tokens back.
\<close>

theorem normalize_idempotent:
  assumes "ascii_text text"
    and "\<forall>t \<in> set (preprocess_text (Some text)). \<not> has_url t"
  shows "preprocess_text (Some (join_ws (preprocess_text (Some text))))
     = preprocess_text (Some text)"
  using assms(2) by (intro preprocess_text_join) (auto intro: preprocess_text_tokens)


theorem normalize_idempotent_witness:
  "ascii_text ''Hello, <@U123> see https://x.y/z now!'' \<and>
   preprocess_text (Some ''Hello, <@U123> see https://x.y/z now!'')
     = [''hello'', ''see'', ''now''] \<and>
   list_all (\<lambda>t. \<not> has_url t) (preprocess_text (Some ''Hello, <@U123> see https://x.y/z now!'')) \<and>
   preprocess_text (Some (join_ws (preprocess_text (Some ''Hello, <@U123> see https://x.y/z now!''))))
     = preprocess_text (Some ''Hello, <@U123> see https://x.y/z now!'')"
proof -
  have a: "ascii_text ''Hello, <@U123> see https://x.y/z now!''"
    by code_simp
  have t: "preprocess_text (Some ''Hello, <@U123> see https://x.y/z now!'')
     = [''hello'', ''see'', ''now'']"
    by code_simp
  have u: "list_all (\<lambda>t. \<not> has_url t)
     (preprocess_text (Some ''Hello, <@U123> see https://x.y/z now!''))"
    by code_simp
  then have "\<forall>t \<in> set (preprocess_text (Some ''Hello, <@U123> see https://x.y/z now!'')).
     \<not> has_url t"
    by (simp only: list_all_iff)
  from normalize_idempotent [OF a this] a t u show ?thesis by blast
qed

text \<open>
  C8 as stated fails: \<^verbatim>\<open>HTTPS\<close> is no match of the case-sensitive \<^verbatim>\<open>http\S+\<close> and
  becomes the token \<^verbatim>\<open>https\<close>, which the second normalization strips as a URL.
\<close>

theorem normalize_idempotent_counterexample:
  "preprocess_text (Some ''HTTPS'') = [''https''] \<and>
   preprocess_text (Some (join_ws (preprocess_text (Some ''HTTPS'')))) = []"
  by code_simp

end
